theory Spec2Isabelle
  imports
    Main
    "HOL-Library.Finite_Map"
    "HOL-Library.Char_ord"
    "HOL-Library.List_Lexorder"
begin

section \<open>The automaton data model\<close>

text \<open>
  States and symbols are Python strings. A simulated input string is iterated
  character by character, so it is a list of symbols, each of them the string of
  one character. The reserved symbol of an \<open>\<epsilon>\<close>-transition is the one-letter
  string made of the Greek letter epsilon, here its two UTF-8 bytes.
\<close>

type_synonym state = string
type_synonym symbol = string

definition EPS :: symbol where
  "EPS = [CHR 0xCE, CHR 0xB5]"

definition NL :: string where
  "NL = [CHR 0x0A]"

text \<open>
  \<open>transitions\<close> is a dictionary from a state to a dictionary from a symbol to
  the list of next states (the caller appends one next state for every line of
  the transition text, so the list can hold the same state twice). A dictionary
  is a finite map. \<open>states\<close> and \<open>alphabet\<close> are lists, \<open>accept_states\<close> is a set.
\<close>

type_synonym transition_table = "(state, (symbol, state list) fmap) fmap"

record automaton =
  states :: "state list"
  alphabet :: "symbol list"
  transitions :: transition_table
  start_state :: state
  accept_states :: "state set"
  is_dfa :: bool

datatype error = TransitionError string | InputError string

datatype automaton_type = DFA | NFA | EPSILON_NFA

text \<open>\<open>sep.join(xs)\<close> of Python.\<close>

fun join :: "string \<Rightarrow> string list \<Rightarrow> string" where
  "join sep [] = []"
| "join sep [x] = x"
| "join sep (x # y # ys) = x @ sep @ join sep (y # ys)"

section \<open>Classification and validation\<close>

text \<open>
  The first loop of \<open>check_if_dfa\<close>: it returns \<open>False\<close> (here: the scan yields
  \<open>False\<close>) at the first listed state that has an \<open>\<epsilon>\<close> entry or an entry with
  more than one next state.
\<close>

fun no_epsilon_or_multiple :: "transition_table \<Rightarrow> state list \<Rightarrow> bool" where
  "no_epsilon_or_multiple T [] = True"
| "no_epsilon_or_multiple T (state # rest) =
     (case fmlookup T state of
        None \<Rightarrow> no_epsilon_or_multiple T rest
      | Some d \<Rightarrow>
          if EPS |\<in>| fmdom d then False
          else if fBex (fmdom d) (\<lambda>symbol. 1 < length (the (fmlookup d symbol))) then False
          else no_epsilon_or_multiple T rest)"

definition check_if_dfa :: "automaton \<Rightarrow> bool" where
  "check_if_dfa A =
     (if \<not> no_epsilon_or_multiple (transitions A) (states A) then False
      else list_all
             (\<lambda>state.
                (case fmlookup (transitions A) state of
                   None \<Rightarrow> False
                 | Some d \<Rightarrow> list_all (\<lambda>symbol. symbol |\<in>| fmdom d) (alphabet A)))
             (filter (\<lambda>state. state \<notin> accept_states A) (states A)))"

text \<open>The text \<open>f"({state}, {symbol})"\<close> of one reported pair.\<close>

definition pair_text :: "state \<Rightarrow> symbol \<Rightarrow> string" where
  "pair_text state symbol = ''('' @ state @ '', '' @ symbol @ '')''"

definition multiple_text :: "state \<Rightarrow> symbol \<Rightarrow> string" where
  "multiple_text state symbol =
     pair_text state symbol @ '' - multiple transitions not allowed in DFA''"

text \<open>What one pass of the outer loop of \<open>validate_transitions\<close> appends.\<close>

definition missing_of_state :: "automaton \<Rightarrow> state \<Rightarrow> string list" where
  "missing_of_state A state =
     (if state \<in> accept_states A then []
      else case fmlookup (transitions A) state of
        None \<Rightarrow> map (\<lambda>symbol. pair_text state symbol) (alphabet A)
      | Some d \<Rightarrow>
          concat (map (\<lambda>symbol.
            case fmlookup d symbol of
              None \<Rightarrow> [pair_text state symbol]
            | Some ds \<Rightarrow> if length ds \<noteq> 1 then [multiple_text state symbol] else [])
          (alphabet A)))"

definition validate_transitions :: "automaton \<Rightarrow> error + unit" where
  "validate_transitions A =
     (if \<not> is_dfa A then Inr ()
      else
        let missing_transitions = concat (map (missing_of_state A) (states A))
        in if missing_transitions \<noteq> []
           then Inl (TransitionError
                  (''DFA Validation Errors:'' @ NL @ join NL missing_transitions))
           else Inr ())"

text \<open>
  The constructor \<open>FiniteAutomaton(...)\<close>: it stores the five arguments, sets
  \<open>is_dfa\<close> from \<open>check_if_dfa\<close> and, for a DFA only, runs \<open>validate_transitions\<close>,
  whose exception leaves no automaton.
\<close>

definition FiniteAutomaton ::
  "state list \<Rightarrow> symbol list \<Rightarrow> transition_table \<Rightarrow> state \<Rightarrow> state set \<Rightarrow> error + automaton"
where
  "FiniteAutomaton sts alph tbl start accept =
     (let A0 = \<lparr>states = sts, alphabet = alph, transitions = tbl,
                start_state = start, accept_states = accept, is_dfa = False\<rparr>;
          A = A0\<lparr>is_dfa := check_if_dfa A0\<rparr>
      in if is_dfa A
         then (case validate_transitions A of Inl e \<Rightarrow> Inl e | Inr u \<Rightarrow> Inr A)
         else Inr A)"

text \<open>
  The kind shown by the caller (\<open>simulate_automaton\<close>): DFA when \<open>is_dfa\<close>,
  otherwise \<open>\<epsilon>\<close>-NFA when a listed state has an \<open>\<epsilon>\<close> entry, otherwise NFA.
\<close>

definition has_epsilon :: "automaton \<Rightarrow> bool" where
  "has_epsilon A =
     list_ex (\<lambda>state. case fmlookup (transitions A) state of
                        None \<Rightarrow> False
                      | Some d \<Rightarrow> EPS |\<in>| fmdom d) (states A)"

definition kind :: "automaton \<Rightarrow> automaton_type" where
  "kind A = (if is_dfa A then DFA else if has_epsilon A then EPSILON_NFA else NFA)"

section \<open>The \<open>\<epsilon>\<close>-closure\<close>

text \<open>
  The inner \<open>for\<close> loop of \<open>get_epsilon_closure\<close> for one next state: a state not
  yet in the closure is added to it and pushed.
\<close>

definition add_new :: "state \<Rightarrow> state set \<times> state list \<Rightarrow> state set \<times> state list" where
  "add_new next_state cs =
     (if next_state \<notin> fst cs then (insert next_state (fst cs), snd cs @ [next_state])
      else cs)"

text \<open>
  One pass of the \<open>while\<close> loop, for a stack that is not empty: \<open>pop()\<close> takes the
  last element of the stack, \<open>append\<close> adds at its end.
\<close>

definition closure_step :: "transition_table \<Rightarrow> state set \<Rightarrow> state list \<Rightarrow> state set \<times> state list" where
  "closure_step T closure stack =
     (let state = last stack; stack' = butlast stack
      in case fmlookup T state of
           None \<Rightarrow> (closure, stack')
         | Some d \<Rightarrow>
             (case fmlookup d EPS of
                None \<Rightarrow> (closure, stack')
              | Some ds \<Rightarrow> fold add_new ds (closure, stack')))"

text \<open>Every state that some \<open>\<epsilon>\<close> entry of the table names as a next state.\<close>

definition eps_targets :: "transition_table \<Rightarrow> state set" where
  "eps_targets T =
     {q. \<exists>p d ds. fmlookup T p = Some d \<and> fmlookup d EPS = Some ds \<and> q \<in> set ds}"

text \<open>The next states of the \<open>\<epsilon>\<close> entry of one state, none when there is no entry.\<close>

definition eps_next :: "transition_table \<Rightarrow> state \<Rightarrow> state set" where
  "eps_next T p =
     (case fmlookup T p of
        None \<Rightarrow> {}
      | Some d \<Rightarrow> (case fmlookup d EPS of None \<Rightarrow> {} | Some ds \<Rightarrow> set ds))"

subsection \<open>What one pass of the loop does to the closure and to the stack\<close>

lemma fold_add_new_fst: "fst (fold add_new ds (c, st)) = c \<union> set ds"
  by (induction ds arbitrary: c st) (auto simp: add_new_def)

lemma fold_add_new_set: "set (snd (fold add_new ds (c, st))) = set st \<union> (set ds - c)"
  by (induction ds arbitrary: c st) (auto simp: add_new_def)

lemma fold_add_new_length:
  "length (snd (fold add_new ds (c, st))) = length st + card (set ds - c)"
proof (induction ds arbitrary: c st)
  case Nil
  then show ?case by simp
next
  case (Cons n ds)
  show ?case
  proof (cases "n \<in> c")
    case True
    then have "set (n # ds) - c = set ds - c" by auto
    with True Cons show ?thesis by (simp add: add_new_def)
  next
    case False
    have "set (n # ds) - c = insert n (set ds - insert n c)" using False by auto
    moreover have "n \<notin> set ds - insert n c" by simp
    ultimately have "card (set (n # ds) - c) = Suc (card (set ds - insert n c))"
      by (simp del: set_simps)
    with False Cons show ?thesis by (simp add: add_new_def)
  qed
qed

lemma closure_step_fst: "fst (closure_step T c st) = c \<union> eps_next T (last st)"
  by (simp add: closure_step_def eps_next_def Let_def fold_add_new_fst split: option.splits)

lemma closure_step_set:
  "set (snd (closure_step T c st)) = set (butlast st) \<union> (eps_next T (last st) - c)"
  by (simp add: closure_step_def eps_next_def Let_def fold_add_new_set split: option.splits)

lemma closure_step_length:
  "length (snd (closure_step T c st)) = length st - 1 + card (eps_next T (last st) - c)"
  by (simp add: closure_step_def eps_next_def Let_def fold_add_new_length split: option.splits)

lemma finite_eps_targets: "finite (eps_targets T)"
proof -
  have "eps_targets T \<subseteq> (\<Union>d \<in> fmran' T. \<Union>ds \<in> fmran' d. set ds)"
    by (auto simp: eps_targets_def intro!: fmran'I) 
  moreover have "finite (\<Union>d \<in> fmran' T. \<Union>ds \<in> fmran' d. set ds)"
    by (auto simp: fmran'_alt_def)
  ultimately show ?thesis by (rule finite_subset)
qed

lemma eps_next_targets: "eps_next T p \<subseteq> eps_targets T"
  by (auto simp: eps_next_def eps_targets_def split: option.splits)

text \<open>
  The \<open>while stack:\<close> loop. It ends: a pass either adds to the closure a state
  that an \<open>\<epsilon>\<close> entry names, and the table names finitely many, or it leaves the
  closure as it is and the stack one shorter.
\<close>

function closure_loop :: "transition_table \<Rightarrow> state set \<Rightarrow> state list \<Rightarrow> state set" where
  "closure_loop T closure stack =
     (if stack = [] then closure
      else case closure_step T closure stack of
             (closure', stack') \<Rightarrow> closure_loop T closure' stack')"
  by pat_completeness auto
termination
proof (relation "inv_image (less_than <*lex*> less_than)
          (\<lambda>(T, c, st). (card (eps_targets T - c), length st))", goal_cases)
  case 1
  show ?case by (intro wf_inv_image wf_lex_prod wf_less_than)
next
  case (2 T c st c' st')
  have c': "c' = c \<union> eps_next T (last st)" using 2(2) closure_step_fst[of T c st] by (metis fst_conv)
  have l': "length st' = length st - 1 + card (eps_next T (last st) - c)"
    using 2(2) closure_step_length[of T c st] by (metis snd_conv)
  show ?case
  proof (cases "eps_next T (last st) \<subseteq> c")
    case True
    then have "c' = c" "eps_next T (last st) - c = {}" using c' by auto
    with l' 2(1) show ?thesis by simp
  next
    case False
    then obtain q where q: "q \<in> eps_next T (last st)" "q \<notin> c" by auto
    then have "q \<in> eps_targets T - c" "q \<notin> eps_targets T - c'"
      using eps_next_targets c' by auto
    moreover have "eps_targets T - c' \<subseteq> eps_targets T - c" using c' by auto
    ultimately have "eps_targets T - c' \<subset> eps_targets T - c" by auto
    then have "card (eps_targets T - c') < card (eps_targets T - c)"
      by (intro psubset_card_mono) (simp_all add: finite_eps_targets)
    then show ?thesis by simp
  qed
qed


declare closure_loop.simps [simp del]

text \<open>
  \<open>get_epsilon_closure(states)\<close>: \<open>closure = set(states)\<close>,
  \<open>stack = list(states)\<close>. Python lists a set in an order of its own; the model
  lists it in ascending order, and \<open>closure_loop_listing\<close> below shows that
  every listing gives the same closure.
\<close>

definition get_epsilon_closure :: "automaton \<Rightarrow> state set \<Rightarrow> state set" where
  "get_epsilon_closure A sts =
     closure_loop (transitions A) sts (sorted_list_of_set sts)"

text \<open>
  The same loop with a bound on the number of passes: \<open>None\<close> when the stack is
  not empty after \<open>k\<close> passes.
\<close>

fun closure_loop_fuel ::
  "nat \<Rightarrow> transition_table \<Rightarrow> state set \<Rightarrow> state list \<Rightarrow> state set option" where
  "closure_loop_fuel 0 T closure stack = (if stack = [] then Some closure else None)"
| "closure_loop_fuel (Suc k) T closure stack =
     (if stack = [] then Some closure
      else case closure_step T closure stack of
             (closure', stack') \<Rightarrow> closure_loop_fuel k T closure' stack')"

section \<open>Simulation\<close>

definition input_error_text :: "symbol list \<Rightarrow> symbol list \<Rightarrow> string" where
  "input_error_text invalid alph =
     ''Input string contains invalid symbols:'' @ NL @
     ''Invalid symbols: '' @ join '', '' invalid @ NL @
     ''Allowed symbols (alphabet): '' @ join '', '' alph"

text \<open>
  \<open>validate_input_string\<close>: \<open>invalid_symbols\<close> is the set of the symbols of the
  input that are not in the alphabet, and the message joins that set. Python
  iterates a set in an order that is fixed within a run and differs from run to
  run (it follows the hash seed of the run), and here the order shows in the
  message. So it is a parameter: \<open>listing S\<close> is the order in which the run
  iterates the set \<open>S\<close>.
\<close>

definition validate_input_string ::
  "(symbol set \<Rightarrow> symbol list) \<Rightarrow> automaton \<Rightarrow> symbol list \<Rightarrow> error + unit" where
  "validate_input_string listing A input_string =
     (let invalid_symbols = set (filter (\<lambda>symbol. symbol \<notin> set (alphabet A)) input_string)
      in if invalid_symbols \<noteq> {}
         then Inl (InputError (input_error_text (listing invalid_symbols) (alphabet A)))
         else Inr ())"

text \<open>
  The inner loop of \<open>simulate\<close>: the union, over the current states, of the next
  states of the entry for the symbol read.
\<close>

definition next_states :: "automaton \<Rightarrow> state set \<Rightarrow> symbol \<Rightarrow> state set" where
  "next_states A current_states symbol =
     (\<Union>state \<in> current_states.
        case fmlookup (transitions A) state of
          None \<Rightarrow> {}
        | Some d \<Rightarrow> (case fmlookup d symbol of None \<Rightarrow> {} | Some ds \<Rightarrow> set ds))"

fun simulate_loop :: "automaton \<Rightarrow> state set \<Rightarrow> symbol list \<Rightarrow> bool" where
  "simulate_loop A current_states [] = (current_states \<inter> accept_states A \<noteq> {})"
| "simulate_loop A current_states (symbol # rest) =
     (let nxt = get_epsilon_closure A (next_states A current_states symbol)
      in if nxt = {} then False else simulate_loop A nxt rest)"

definition simulate ::
  "(symbol set \<Rightarrow> symbol list) \<Rightarrow> automaton \<Rightarrow> symbol list \<Rightarrow> error + bool" where
  "simulate listing A input_string =
     (case validate_input_string listing A input_string of
        Inl e \<Rightarrow> Inl e
      | Inr u \<Rightarrow>
          Inr (simulate_loop A (get_epsilon_closure A {start_state A}) input_string))"

text \<open>
  A call of the method together with the object after the call. \<open>simulate\<close>,
  \<open>validate_input_string\<close> and \<open>get_epsilon_closure\<close> read the attributes of
  \<open>self\<close> and assign none of them; the sets and the stack they build are local.
\<close>

definition simulate_call ::
  "(symbol set \<Rightarrow> symbol list) \<Rightarrow> automaton \<Rightarrow> symbol list \<Rightarrow> (error + bool) \<times> automaton" where
  "simulate_call listing A input_string = (simulate listing A input_string, A)"

section \<open>The specification's wording\<close>

text \<open>
  The \<open>\<epsilon>\<close>-closure as the specification describes it: the states of the given
  set, and every state reached from a state of the closure by an \<open>\<epsilon>\<close>-transition.
\<close>

inductive_set epsilonClosure :: "automaton \<Rightarrow> state set \<Rightarrow> state set"
  for A :: automaton and X :: "state set" where
  given: "s \<in> X \<Longrightarrow> s \<in> epsilonClosure A X"
| follow: "p \<in> epsilonClosure A X \<Longrightarrow> fmlookup (transitions A) p = Some d \<Longrightarrow>
           fmlookup d EPS = Some ds \<Longrightarrow> q \<in> set ds \<Longrightarrow> q \<in> epsilonClosure A X"

text \<open>
  The destinations reachable from any current state via that exact symbol, and
  the run of the specification: the closure of the destinations replaces the
  current set, an empty set rejects at once, and after the last symbol the run
  accepts when the current set meets the accept states.
\<close>

definition destinations :: "automaton \<Rightarrow> state set \<Rightarrow> symbol \<Rightarrow> state set" where
  "destinations A current symbol =
     {q. \<exists>p d ds. p \<in> current \<and> fmlookup (transitions A) p = Some d \<and>
           fmlookup d symbol = Some ds \<and> q \<in> set ds}"

fun spec_run :: "automaton \<Rightarrow> state set \<Rightarrow> symbol list \<Rightarrow> bool" where
  "spec_run A current [] = (current \<inter> accept_states A \<noteq> {})"
| "spec_run A current (symbol # rest) =
     (if epsilonClosure A (destinations A current symbol) = {} then False
      else spec_run A (epsilonClosure A (destinations A current symbol)) rest)"

text \<open>
  The violations the specification speaks of: a pair of a listed state that is
  not an accept state and an alphabet symbol violates when it has no entry, or
  an entry whose number of next states is not one. \<open>violations\<close> lists the
  violating pairs, state by state in the order of \<open>states\<close> and symbol by symbol
  in the order of \<open>alphabet\<close>; \<open>violation_text\<close> is the line reported for a pair.
\<close>

definition violates :: "automaton \<Rightarrow> state \<Rightarrow> symbol \<Rightarrow> bool" where
  "violates A state symbol =
     (case fmlookup (transitions A) state of
        None \<Rightarrow> True
      | Some d \<Rightarrow> (case fmlookup d symbol of None \<Rightarrow> True | Some ds \<Rightarrow> length ds \<noteq> 1))"

definition violations :: "automaton \<Rightarrow> (state \<times> symbol) list" where
  "violations A =
     concat (map (\<lambda>state. map (Pair state) (filter (violates A state) (alphabet A)))
                 (filter (\<lambda>state. state \<notin> accept_states A) (states A)))"

definition violation_text :: "automaton \<Rightarrow> state \<times> symbol \<Rightarrow> string" where
  "violation_text A p =
     ''('' @ fst p @ '', '' @ snd p @ '')'' @
     (case fmlookup (transitions A) (fst p) of
        None \<Rightarrow> []
      | Some d \<Rightarrow>
          (case fmlookup d (snd p) of
             None \<Rightarrow> []
           | Some ds \<Rightarrow> '' - multiple transitions not allowed in DFA''))"

text \<open>
  Some listed state has an entry with more than one next state; and: every
  listed state that is not an accept state has, for every alphabet symbol, an
  entry with exactly one next state.
\<close>

definition has_multiple :: "automaton \<Rightarrow> bool" where
  "has_multiple A =
     list_ex (\<lambda>state. case fmlookup (transitions A) state of
                        None \<Rightarrow> False
                      | Some d \<Rightarrow> fBex (fmdom d) (\<lambda>symbol. 1 < length (the (fmlookup d symbol))))
             (states A)"

definition complete_single :: "automaton \<Rightarrow> bool" where
  "complete_single A =
     list_all (\<lambda>state. list_all (\<lambda>symbol. \<not> violates A state symbol) (alphabet A))
              (filter (\<lambda>state. state \<notin> accept_states A) (states A))"

section \<open>The scenarios of the specification\<close>

text \<open>
  The DFA scenario: states \<open>q0\<close>, \<open>q1\<close>, alphabet \<open>0\<close>, \<open>1\<close>, transitions
  \<open>q0,0 -> q1\<close>, \<open>q0,1 -> q0\<close>, \<open>q1,0 -> q0\<close>, \<open>q1,1 -> q1\<close>, start \<open>q0\<close>,
  accept \<open>q1\<close>.
\<close>

definition example_dfa_table :: transition_table where
  "example_dfa_table =
     fmap_of_list [(''q0'', fmap_of_list [(''0'', [''q1'']), (''1'', [''q0''])]),
                   (''q1'', fmap_of_list [(''0'', [''q0'']), (''1'', [''q1''])])]"

definition example_dfa :: automaton where
  "example_dfa =
     \<lparr>states = [''q0'', ''q1''], alphabet = [''0'', ''1''],
      transitions = example_dfa_table, start_state = ''q0'',
      accept_states = {''q1''}, is_dfa = True\<rparr>"

text \<open>
  The incomplete scenario: the same states and alphabet, the single transition
  \<open>q0,0 -> q1\<close>, start \<open>q0\<close>, accept \<open>q1\<close>.
\<close>

definition incomplete_table :: transition_table where
  "incomplete_table = fmap_of_list [(''q0'', fmap_of_list [(''0'', [''q1''])])]"

definition incomplete_automaton :: automaton where
  "incomplete_automaton =
     \<lparr>states = [''q0'', ''q1''], alphabet = [''0'', ''1''],
      transitions = incomplete_table, start_state = ''q0'',
      accept_states = {''q1''}, is_dfa = False\<rparr>"

text \<open>
  The \<open>\<epsilon>\<close>-NFA scenario: states \<open>q0\<close>, \<open>q1\<close>, \<open>q2\<close>, alphabet \<open>a\<close>, transitions
  \<open>q0,\<epsilon> -> q1\<close> and \<open>q1,a -> q2\<close>, start \<open>q0\<close>, accept \<open>q2\<close>.
\<close>

definition example_eps_table :: transition_table where
  "example_eps_table =
     fmap_of_list [(''q0'', fmap_of_list [(EPS, [''q1''])]),
                   (''q1'', fmap_of_list [(''a'', [''q2''])])]"

definition example_eps_nfa :: automaton where
  "example_eps_nfa =
     \<lparr>states = [''q0'', ''q1'', ''q2''], alphabet = [''a''],
      transitions = example_eps_table, start_state = ''q0'',
      accept_states = {''q2''}, is_dfa = False\<rparr>"

text \<open>
  Further automata: one with violations of each kind (\<open>q0\<close> has two next states
  for \<open>0\<close> and no entry for \<open>1\<close>, \<open>q1\<close> has no entry at all, the accept state
  \<open>q2\<close> has two next states for \<open>0\<close>); one whose only non-accepting state \<open>q0\<close>
  is complete and deterministic while the accept state \<open>q1\<close> has two next states
  for \<open>0\<close>; and a table with the single loop \<open>q0,0 -> q0\<close>.
\<close>

definition violating_table :: transition_table where
  "violating_table = fmap_of_list [(''q0'', fmap_of_list [(''0'', [''q1'', ''q2''])]),
                                   (''q2'', fmap_of_list [(''0'', [''q1'', ''q2''])])]"

definition violating_automaton :: automaton where
  "violating_automaton =
     \<lparr>states = [''q0'', ''q1'', ''q2''], alphabet = [''0'', ''1''],
      transitions = violating_table, start_state = ''q0'',
      accept_states = {''q2''}, is_dfa = True\<rparr>"

definition fork_table :: transition_table where
  "fork_table =
     fmap_of_list [(''q0'', fmap_of_list [(''0'', [''q1'']), (''1'', [''q0''])]),
                   (''q1'', fmap_of_list [(''0'', [''q0'', ''q1''])])]"

definition fork_automaton :: automaton where
  "fork_automaton =
     \<lparr>states = [''q0'', ''q1''], alphabet = [''0'', ''1''],
      transitions = fork_table, start_state = ''q0'',
      accept_states = {''q1''}, is_dfa = False\<rparr>"

definition loop_table :: transition_table where
  "loop_table = fmap_of_list [(''q0'', fmap_of_list [(''0'', [''q0''])])]"

section \<open>Properties of the \<open>\<epsilon>\<close>-closure\<close>

lemma epsilonClosure_next:
  "p \<in> epsilonClosure A X \<Longrightarrow> q \<in> eps_next (transitions A) p \<Longrightarrow> q \<in> epsilonClosure A X"
  by (auto simp: eps_next_def split: option.splits intro: epsilonClosure.follow)

lemma epsilonClosure_least:
  assumes "X \<subseteq> C" and "\<forall>p\<in>C. eps_next (transitions A) p \<subseteq> C"
  shows "epsilonClosure A X \<subseteq> C"
proof
  fix q assume "q \<in> epsilonClosure A X"
  then show "q \<in> C"
  proof (induction rule: epsilonClosure.induct)
    case (given s)
    with assms(1) show ?case by auto
  next
    case (follow p d ds q)
    then have "q \<in> eps_next (transitions A) p" by (simp add: eps_next_def)
    with follow assms(2) show ?case by auto
  qed
qed

lemma epsilonClosure_mono: "X \<subseteq> Y \<Longrightarrow> epsilonClosure A X \<subseteq> epsilonClosure A Y"
  by (rule epsilonClosure_least) (auto intro: epsilonClosure.given epsilonClosure_next)

lemma epsilonClosure_idem: "epsilonClosure A (epsilonClosure A X) = epsilonClosure A X"
proof
  show "epsilonClosure A (epsilonClosure A X) \<subseteq> epsilonClosure A X"
    by (rule epsilonClosure_least) (auto intro: epsilonClosure_next)
  show "epsilonClosure A X \<subseteq> epsilonClosure A (epsilonClosure A X)"
    by (auto intro: epsilonClosure.given)
qed

lemma epsilonClosure_absorb:
  assumes "X \<subseteq> C" "C \<subseteq> epsilonClosure A X"
  shows "epsilonClosure A C = epsilonClosure A X"
proof
  have "epsilonClosure A C \<subseteq> epsilonClosure A (epsilonClosure A X)"
    using assms(2) by (rule epsilonClosure_mono)
  then show "epsilonClosure A C \<subseteq> epsilonClosure A X" by (simp add: epsilonClosure_idem)
  show "epsilonClosure A X \<subseteq> epsilonClosure A C" using assms(1) by (rule epsilonClosure_mono)
qed

lemma set_butlast_last: "st \<noteq> [] \<Longrightarrow> set st = insert (last st) (set (butlast st))"
  by (induction st) auto

lemma closure_loop_correct:
  "set st \<subseteq> c \<Longrightarrow> (\<forall>p\<in>c. p \<notin> set st \<longrightarrow> eps_next (transitions A) p \<subseteq> c) \<Longrightarrow>
   T = transitions A \<Longrightarrow> closure_loop T c st = epsilonClosure A c"
proof (induction T c st rule: closure_loop.induct)
  case (1 T c st)
  show ?case
  proof (cases "st = []")
    case True
    have "epsilonClosure A c \<subseteq> c"
      using 1(3) True by (intro epsilonClosure_least) auto
    then have "epsilonClosure A c = c" by (auto intro: epsilonClosure.given)
    with True show ?thesis by (simp add: closure_loop.simps)
  next
    case False
    obtain c' st' where step: "closure_step T c st = (c', st')" by (cases "closure_step T c st")
    have c': "c' = c \<union> eps_next T (last st)" using step closure_step_fst[of T c st] by simp
    have s': "set st' = set (butlast st) \<union> (eps_next T (last st) - c)"
      using step closure_step_set[of T c st] by simp
    have last_in: "last st \<in> c" using False 1(2) by auto
    have st_set: "set st = insert (last st) (set (butlast st))"
      using False by (rule set_butlast_last)
    have sub: "set st' \<subseteq> c'" using s' c' 1(2) st_set by auto
    have inv: "\<forall>p\<in>c'. p \<notin> set st' \<longrightarrow> eps_next (transitions A) p \<subseteq> c'"
    proof (intro ballI impI)
      fix p assume p: "p \<in> c'" "p \<notin> set st'"
      then have pc: "p \<in> c" using c' s' by auto
      show "eps_next (transitions A) p \<subseteq> c'"
      proof (cases "p = last st")
        case True
        then show ?thesis using c' 1(4) by auto
      next
        case False
        then have "p \<notin> set st" using p(2) s' st_set by auto
        with pc 1(3) have "eps_next (transitions A) p \<subseteq> c" by auto
        then show ?thesis using c' by auto
      qed
    qed
    have "closure_loop T c' st' = epsilonClosure A c'"
      using "1.IH"[OF False step[symmetric] sub inv 1(4)] .
    moreover have "epsilonClosure A c' = epsilonClosure A c"
    proof (rule epsilonClosure_absorb)
      show "c \<subseteq> c'" using c' by auto
      show "c' \<subseteq> epsilonClosure A c"
        using c' last_in 1(4) by (auto intro: epsilonClosure.given epsilonClosure_next)
    qed
    moreover have "closure_loop T c st = closure_loop T c' st'"
      using False step by (subst closure_loop.simps) simp
    ultimately show ?thesis by simp
  qed
qed

lemma closure_loop_listing:
  assumes "set xs = X"
  shows "closure_loop (transitions A) X xs = epsilonClosure A X"
  using assms by (intro closure_loop_correct) auto

lemma get_epsilon_closure_eq:
  "finite X \<Longrightarrow> get_epsilon_closure A X = epsilonClosure A X"
  unfolding get_epsilon_closure_def by (rule closure_loop_listing) simp

lemma epsilonClosure_bound: "epsilonClosure A X \<subseteq> X \<union> eps_targets (transitions A)"
proof (rule epsilonClosure_least)
  show "X \<subseteq> X \<union> eps_targets (transitions A)" by simp
  show "\<forall>p\<in>X \<union> eps_targets (transitions A).
          eps_next (transitions A) p \<subseteq> X \<union> eps_targets (transitions A)"
    using eps_next_targets by blast
qed

lemma finite_epsilonClosure: "finite X \<Longrightarrow> finite (epsilonClosure A X)"
  by (rule finite_subset[OF epsilonClosure_bound]) (simp add: finite_eps_targets)

subsection \<open>The number of passes of the loop\<close>

lemma closure_loop_increasing: "c \<subseteq> closure_loop T c st"
proof (induction T c st rule: closure_loop.induct)
  case (1 T c st)
  show ?case
  proof (cases "st = []")
    case True
    then show ?thesis by (simp add: closure_loop.simps)
  next
    case False
    obtain c' st' where step: "closure_step T c st = (c', st')" by (cases "closure_step T c st")
    have "c \<subseteq> c'" using step closure_step_fst[of T c st] by auto
    moreover have "c' \<subseteq> closure_loop T c' st'" using "1.IH"[OF False step[symmetric]] .
    moreover have "closure_loop T c st = closure_loop T c' st'"
      using False step by (subst closure_loop.simps) simp
    ultimately show ?thesis by auto
  qed
qed

lemma closure_loop_within: "closure_loop T c st \<subseteq> c \<union> eps_targets T"
proof (induction T c st rule: closure_loop.induct)
  case (1 T c st)
  show ?case
  proof (cases "st = []")
    case True
    then show ?thesis by (simp add: closure_loop.simps)
  next
    case False
    obtain c' st' where step: "closure_step T c st = (c', st')" by (cases "closure_step T c st")
    have "c' \<subseteq> c \<union> eps_targets T"
      using step closure_step_fst[of T c st] eps_next_targets[of T "last st"] by auto
    moreover have "closure_loop T c' st' \<subseteq> c' \<union> eps_targets T"
      using "1.IH"[OF False step[symmetric]] .
    moreover have "closure_loop T c st = closure_loop T c' st'"
      using False step by (subst closure_loop.simps) simp
    ultimately show ?thesis by auto
  qed
qed

lemma closure_loop_passes:
  "closure_loop_fuel k T c st =
     (if length st + card (closure_loop T c st - c) \<le> k
      then Some (closure_loop T c st) else None)"
proof (induction T c st arbitrary: k rule: closure_loop.induct)
  case (1 T c st)
  show ?case
  proof (cases "st = []")
    case True
    then show ?thesis by (cases k) (simp_all add: closure_loop.simps)
  next
    case False
    obtain c' st' where step: "closure_step T c st = (c', st')" by (cases "closure_step T c st")
    let ?R = "closure_loop T c st"
    have R: "?R = closure_loop T c' st'"
      using False step by (subst closure_loop.simps) simp
    have c': "c' = c \<union> eps_next T (last st)" using step closure_step_fst[of T c st] by simp
    have len: "length st' = length st - 1 + card (c' - c)"
    proof -
      have "c' - c = eps_next T (last st) - c" using c' by auto
      then show ?thesis using step closure_step_length[of T c st] by simp
    qed
    have sub1: "c \<subseteq> c'" using c' by auto
    have sub2: "c' \<subseteq> ?R" unfolding R by (rule closure_loop_increasing)
    have fin: "finite (?R - c)"
      by (rule finite_subset[of _ "eps_targets T"])
         (use closure_loop_within[of T c st] in auto, rule finite_eps_targets)
    have split: "?R - c = (c' - c) \<union> (?R - c')" using sub1 sub2 by auto
    have "card (?R - c) = card (c' - c) + card (?R - c')"
    proof -
      have "card ((c' - c) \<union> (?R - c')) = card (c' - c) + card (?R - c')"
        by (rule card_Un_disjoint) (use fin split in auto)
      with split show ?thesis by simp
    qed
    then have total: "length st + card (?R - c) = Suc (length st' + card (?R - c'))"
      using len False by (cases st) auto
    show ?thesis
    proof (cases k)
      case 0
      with False total show ?thesis by simp
    next
      case (Suc k')
      have "closure_loop_fuel k T c st = closure_loop_fuel k' T c' st'"
        using Suc False step by simp
      also have "\<dots> = (if length st' + card (closure_loop T c' st' - c') \<le> k'
                        then Some (closure_loop T c' st') else None)"
        using "1.IH"[OF False step[symmetric]] .
      finally show ?thesis using total Suc R by simp
    qed
  qed
qed

section \<open>Properties of the simulation\<close>

lemma next_states_destinations: "next_states A cur symbol = destinations A cur symbol"
  by (auto simp: next_states_def destinations_def split: option.splits)

lemma finite_destinations: "finite (destinations A cur symbol)"
proof -
  have "destinations A cur symbol \<subseteq> (\<Union>d \<in> fmran' (transitions A). \<Union>ds \<in> fmran' d. set ds)"
    by (auto simp: destinations_def intro!: fmran'I)
  moreover have "finite (\<Union>d \<in> fmran' (transitions A). \<Union>ds \<in> fmran' d. set ds)"
    by (auto simp: fmran'_alt_def)
  ultimately show ?thesis by (rule finite_subset)
qed

lemma simulate_loop_spec_run: "simulate_loop A cur inp = spec_run A cur inp"
proof (induction inp arbitrary: cur)
  case Nil
  show ?case by simp
next
  case (Cons symbol rest)
  have "get_epsilon_closure A (next_states A cur symbol)
          = epsilonClosure A (destinations A cur symbol)"
    by (simp add: next_states_destinations get_epsilon_closure_eq finite_destinations)
  with Cons show ?case by (simp add: Let_def)
qed

lemma validate_input_string_ok:
  "set inp \<subseteq> set (alphabet A) \<Longrightarrow> validate_input_string listing A inp = Inr ()"
  by (auto simp: validate_input_string_def Let_def filter_empty_conv)

lemma get_epsilon_closure_flag [simp]:
  "get_epsilon_closure (A\<lparr>is_dfa := b\<rparr>) X = get_epsilon_closure A X"
  by (simp add: get_epsilon_closure_def)

lemma next_states_flag [simp]: "next_states (A\<lparr>is_dfa := b\<rparr>) cur symbol = next_states A cur symbol"
  by (simp add: next_states_def)

lemma simulate_loop_flag: "simulate_loop (A\<lparr>is_dfa := b\<rparr>) cur inp = simulate_loop A cur inp"
  by (induction inp arbitrary: cur) (simp_all add: Let_def)

lemma simulate_flag: "simulate listing (A\<lparr>is_dfa := b\<rparr>) inp = simulate listing A inp"
  by (simp add: simulate_def validate_input_string_def simulate_loop_flag)

section \<open>Properties of \<open>join\<close>\<close>

lemma join_prefixed: "xs \<noteq> [] \<Longrightarrow> sep @ join sep xs = concat (map (\<lambda>x. sep @ x) xs)"
  by (induction sep xs rule: join.induct) auto

lemma join_drop: "join sep xs = drop (length sep) (concat (map (\<lambda>x. sep @ x) xs))"
proof (cases "xs = []")
  case True
  then show ?thesis by simp
next
  case False
  have "drop (length sep) (sep @ join sep xs) = join sep xs" by simp
  then show ?thesis using join_prefixed[OF False, of sep] by simp
qed

lemma join_names: "x \<in> set xs \<Longrightarrow> \<exists>pre post. join sep xs = pre @ x @ post"
proof (induction sep xs rule: join.induct)
  case (1 sep)
  then show ?case by simp
next
  case (2 sep y)
  then have "join sep [y] = [] @ x @ []" by simp
  then show ?case by blast
next
  case (3 sep y z zs)
  show ?case
  proof (cases "x = y")
    case True
    then have "join sep (y # z # zs) = [] @ x @ (sep @ join sep (z # zs))" by simp
    then show ?thesis by blast
  next
    case False
    with 3 obtain pre post where "join sep (z # zs) = pre @ x @ post" by auto
    then have "join sep (y # z # zs) = (y @ sep @ pre) @ x @ post" by simp
    then show ?thesis by blast
  qed
qed

section \<open>Properties of classification and validation\<close>

lemma missing_entries_some:
  "fmlookup (transitions A) state = Some d \<Longrightarrow>
   concat (map (\<lambda>symbol.
            case fmlookup d symbol of
              None \<Rightarrow> [pair_text state symbol]
            | Some ds \<Rightarrow> if length ds \<noteq> 1 then [multiple_text state symbol] else []) alph)
     = map (violation_text A) (map (Pair state) (filter (violates A state) alph))"
  by (induction alph)
     (auto simp: violates_def violation_text_def pair_text_def multiple_text_def
           split: option.splits)

lemma missing_entries_none:
  "fmlookup (transitions A) state = None \<Longrightarrow>
   map (\<lambda>symbol. pair_text state symbol) alph
     = map (violation_text A) (map (Pair state) (filter (violates A state) alph))"
  by (induction alph) (auto simp: violates_def violation_text_def pair_text_def)

lemma missing_of_state_violations:
  "missing_of_state A state =
     (if state \<in> accept_states A then []
      else map (violation_text A) (map (Pair state) (filter (violates A state) (alphabet A))))"
  by (cases "fmlookup (transitions A) state")
     (simp_all add: missing_of_state_def missing_entries_some missing_entries_none)

lemma missing_transitions_violations:
  "concat (map (missing_of_state A) sts) =
     map (violation_text A)
       (concat (map (\<lambda>state. map (Pair state) (filter (violates A state) (alphabet A)))
                    (filter (\<lambda>state. state \<notin> accept_states A) sts)))"
  by (induction sts) (simp_all add: missing_of_state_violations)

lemma validate_transitions_violations:
  "is_dfa A \<Longrightarrow>
   validate_transitions A =
     (if violations A = [] then Inr ()
      else Inl (TransitionError
             (''DFA Validation Errors:'' @ NL @ join NL (map (violation_text A) (violations A)))))"
  by (simp add: validate_transitions_def Let_def missing_transitions_violations violations_def)

lemma set_violations:
  "set (violations A) =
     {(state, symbol). state \<in> set (states A) \<and> state \<notin> accept_states A \<and>
        symbol \<in> set (alphabet A) \<and> violates A state symbol}"
  by (auto simp: violations_def)

lemma no_epsilon_or_multiple_iff:
  "no_epsilon_or_multiple T sts \<longleftrightarrow>
     (\<forall>state\<in>set sts. \<forall>d. fmlookup T state = Some d \<longrightarrow>
        fmlookup d EPS = None \<and> (\<forall>symbol ds. fmlookup d symbol = Some ds \<longrightarrow> length ds \<le> 1))"
proof (induction sts)
  case Nil
  show ?case by simp
next
  case (Cons state rest)
  show ?case
  proof (cases "fmlookup T state")
    case None
    with Cons show ?thesis by simp
  next
    case (Some d)
    have multi: "fBex (fmdom d) (\<lambda>symbol. 1 < length (the (fmlookup d symbol)))
                  \<longleftrightarrow> (\<exists>symbol ds. fmlookup d symbol = Some ds \<and> 1 < length ds)"
    proof
      assume "fBex (fmdom d) (\<lambda>symbol. 1 < length (the (fmlookup d symbol)))"
      then obtain symbol where s: "symbol |\<in>| fmdom d" "1 < length (the (fmlookup d symbol))"
        by blast
      from s(1) obtain ds where "fmlookup d symbol = Some ds" by (auto simp: fmlookup_dom_iff)
      with s(2) show "\<exists>symbol ds. fmlookup d symbol = Some ds \<and> 1 < length ds" by auto
    next
      assume "\<exists>symbol ds. fmlookup d symbol = Some ds \<and> 1 < length ds"
      then obtain symbol ds where s: "fmlookup d symbol = Some ds" "1 < length ds" by blast
      then have "symbol |\<in>| fmdom d" "1 < length (the (fmlookup d symbol))"
        by (simp_all add: fmdomI)
      then show "fBex (fmdom d) (\<lambda>symbol. 1 < length (the (fmlookup d symbol)))" by blast
    qed
    have eps: "EPS |\<in>| fmdom d \<longleftrightarrow> fmlookup d EPS \<noteq> None"
      by (auto simp: fmlookup_dom_iff)
    have m: "fBex (fmdom d) (\<lambda>symbol. 1 < length (the (fmlookup d symbol)))
               \<longleftrightarrow> \<not> (\<forall>symbol ds. fmlookup d symbol = Some ds \<longrightarrow> length ds \<le> 1)"
      unfolding multi by (auto simp: not_le)
    have step: "no_epsilon_or_multiple T (state # rest) \<longleftrightarrow>
                  fmlookup d EPS = None \<and>
                  (\<forall>symbol ds. fmlookup d symbol = Some ds \<longrightarrow> length ds \<le> 1) \<and>
                  no_epsilon_or_multiple T rest"
      unfolding no_epsilon_or_multiple.simps Some option.case eps m by auto
    show ?thesis unfolding step Cons using Some by auto
  qed
qed

lemma complete_state_iff:
  "(case fmlookup T state of
      None \<Rightarrow> False
    | Some d \<Rightarrow> list_all (\<lambda>symbol. symbol |\<in>| fmdom d) alph) \<longleftrightarrow>
   (\<exists>d. fmlookup T state = Some d \<and> (\<forall>symbol\<in>set alph. \<exists>ds. fmlookup d symbol = Some ds))"
  by (cases "fmlookup T state") (auto simp: list_all_iff fmlookup_dom_iff)

lemma check_if_dfa_iff:
  "check_if_dfa A \<longleftrightarrow>
     no_epsilon_or_multiple (transitions A) (states A) \<and>
     (\<forall>state\<in>set (states A). state \<notin> accept_states A \<longrightarrow>
        (\<exists>d. fmlookup (transitions A) state = Some d \<and>
             (\<forall>symbol\<in>set (alphabet A). \<exists>ds. fmlookup d symbol = Some ds)))"
  by (auto simp add: check_if_dfa_def list_all_iff complete_state_iff)

lemma check_if_dfa_flag: "check_if_dfa (A\<lparr>is_dfa := b\<rparr>) = check_if_dfa A"
  by (simp add: check_if_dfa_def cong: option.case_cong)

lemma violates_flag: "violates (A\<lparr>is_dfa := b\<rparr>) = violates A"
  by (simp add: fun_eq_iff violates_def)

lemma violation_text_flag: "violation_text (A\<lparr>is_dfa := b\<rparr>) = violation_text A"
  by (simp add: fun_eq_iff violation_text_def)

lemma violations_flag: "violations (A\<lparr>is_dfa := b\<rparr>) = violations A"
  by (simp add: violations_def violates_flag)

lemma FiniteAutomaton_eq:
  "FiniteAutomaton (states A) (alphabet A) (transitions A) (start_state A) (accept_states A) =
     (if check_if_dfa A
      then (if violations A = [] then Inr (A\<lparr>is_dfa := True\<rparr>)
            else Inl (TransitionError
                   (''DFA Validation Errors:'' @ NL @
                    join NL (map (violation_text A) (violations A)))))
      else Inr (A\<lparr>is_dfa := False\<rparr>))"
proof -
  obtain sts alph tbl start accept b where A:
    "A = \<lparr>states = sts, alphabet = alph, transitions = tbl,
          start_state = start, accept_states = accept, is_dfa = b\<rparr>"
    by (cases A) auto
  let ?A0 = "\<lparr>states = sts, alphabet = alph, transitions = tbl,
          start_state = start, accept_states = accept, is_dfa = False\<rparr>"
  have c: "check_if_dfa ?A0 = check_if_dfa A" using check_if_dfa_flag[of False A] by (simp add: A)
  have v: "violations (?A0\<lparr>is_dfa := True\<rparr>) = violations A"
    using violations_flag[of True A] by (simp add: A)
  have t: "violation_text (?A0\<lparr>is_dfa := True\<rparr>) = violation_text A"
    using violation_text_flag[of True A] by (simp add: A)
  show ?thesis
  proof (cases "check_if_dfa A")
    case True
    have "validate_transitions (?A0\<lparr>is_dfa := True\<rparr>) =
     (if violations A = [] then Inr ()
      else Inl (TransitionError
             (''DFA Validation Errors:'' @ NL @ join NL (map (violation_text A) (violations A)))))"
      using validate_transitions_violations[of "?A0\<lparr>is_dfa := True\<rparr>"] v t by simp
    then show ?thesis using True c
      by (simp add: FiniteAutomaton_def Let_def A)
  next
    case False
    then show ?thesis using c by (simp add: FiniteAutomaton_def Let_def A)
  qed
qed

lemma dfa_no_violation:
  assumes "check_if_dfa A"
    and "\<forall>state d symbol ds.
           fmlookup (transitions A) state = Some d \<and> fmlookup d symbol = Some ds \<longrightarrow> ds \<noteq> []"
  shows "violations A = []"
proof -
  have "\<not> violates A state symbol"
    if "state \<in> set (states A)" "state \<notin> accept_states A" "symbol \<in> set (alphabet A)"
    for state symbol
  proof -
    from assms(1) that obtain d ds where d: "fmlookup (transitions A) state = Some d"
      and ds: "fmlookup d symbol = Some ds"
      unfolding check_if_dfa_iff by blast
    from assms(1) that(1) d ds have "length ds \<le> 1"
      unfolding check_if_dfa_iff no_epsilon_or_multiple_iff by blast
    moreover from assms(2) d ds have "ds \<noteq> []" by blast
    ultimately have "length ds = 1" by (cases ds) auto
    with d ds show ?thesis by (simp add: violates_def)
  qed
  then have "set (violations A) = {}" unfolding set_violations by auto
  then show ?thesis by simp
qed

lemma scan_iff_list_ex:
  "no_epsilon_or_multiple T sts \<longleftrightarrow>
     \<not> list_ex (\<lambda>state. case fmlookup T state of
                          None \<Rightarrow> False
                        | Some d \<Rightarrow> EPS |\<in>| fmdom d) sts \<and>
     \<not> list_ex (\<lambda>state. case fmlookup T state of
                          None \<Rightarrow> False
                        | Some d \<Rightarrow> fBex (fmdom d) (\<lambda>symbol. 1 < length (the (fmlookup d symbol))))
          sts"
  by (induction sts) (auto split: option.splits)

lemma scan_iff_flags:
  "no_epsilon_or_multiple (transitions A) (states A) \<longleftrightarrow> \<not> has_epsilon A \<and> \<not> has_multiple A"
  unfolding has_epsilon_def has_multiple_def by (rule scan_iff_list_ex)

lemma complete_single_entries:
  assumes "complete_single A" "alphabet A \<noteq> []"
    "state \<in> set (states A)" "state \<notin> accept_states A"
  shows "\<exists>d. fmlookup (transitions A) state = Some d \<and>
             (\<forall>symbol\<in>set (alphabet A). \<exists>ds. fmlookup d symbol = Some ds)"
proof -
  have nv: "\<forall>symbol\<in>set (alphabet A). \<not> violates A state symbol"
    using assms(1,3,4) by (auto simp: complete_single_def list_all_iff)
  obtain symbol where "symbol \<in> set (alphabet A)" using assms(2) by (cases "alphabet A") auto
  with nv have "\<not> violates A state symbol" by blast
  then obtain d where d: "fmlookup (transitions A) state = Some d"
    by (auto simp: violates_def split: option.splits)
  have "\<exists>ds. fmlookup d symbol = Some ds" if "symbol \<in> set (alphabet A)" for symbol
    using nv that d by (auto simp: violates_def split: option.splits)
  with d show ?thesis by blast
qed

lemma complete_single_violations: "complete_single A \<Longrightarrow> violations A = []"
proof -
  assume "complete_single A"
  then have "set (violations A) = {}"
    unfolding set_violations by (auto simp: complete_single_def list_all_iff)
  then show ?thesis by simp
qed

lemma has_epsilon_flag: "has_epsilon (A\<lparr>is_dfa := b\<rparr>) = has_epsilon A"
  by (simp add: has_epsilon_def)

lemma check_if_dfa_start: "check_if_dfa (A\<lparr>start_state := s\<rparr>) = check_if_dfa A"
  by (simp add: check_if_dfa_def cong: option.case_cong)

lemma violates_start: "violates (A\<lparr>start_state := s\<rparr>) = violates A"
  by (simp add: fun_eq_iff violates_def)

lemma violation_text_start: "violation_text (A\<lparr>start_state := s\<rparr>) = violation_text A"
  by (simp add: fun_eq_iff violation_text_def)

lemma violations_start: "violations (A\<lparr>start_state := s\<rparr>) = violations A"
  by (simp add: violations_def violates_start)

lemma invalid_symbols_eq:
  "set (filter (\<lambda>symbol. symbol \<notin> set alph) inp) = set inp - set alph"
  by auto

section \<open>The claims about the evaluator\<close>

text \<open>
  C1: for an input whose symbols all belong to the alphabet, \<open>simulate\<close> returns
  what the algorithm of the specification returns: the current set starts as the
  \<open>\<epsilon>\<close>-closure of the start state; each symbol replaces it by the \<open>\<epsilon>\<close>-closure
  of the destinations reached by that symbol; an empty set rejects at once;
  after the last symbol the input is accepted exactly when the current set
  meets the accept states. The value of \<open>is_dfa\<close> plays no part.
\<close>

theorem simulate_is_spec_run:
  assumes "set input_string \<subseteq> set (alphabet A)"
  shows "simulate listing A input_string
           = Inr (spec_run A (epsilonClosure A {start_state A}) input_string)
         \<and> simulate listing (A\<lparr>is_dfa := b\<rparr>) input_string = simulate listing A input_string"
proof -
  have "get_epsilon_closure A {start_state A} = epsilonClosure A {start_state A}"
    by (simp add: get_epsilon_closure_eq)
  then have "simulate listing A input_string
           = Inr (spec_run A (epsilonClosure A {start_state A}) input_string)"
    using assms by (simp add: simulate_def validate_input_string_ok simulate_loop_spec_run)
  then show ?thesis using simulate_flag[of listing b A input_string] by simp
qed

lemma example_eps_nfa_a: "simulate listing example_eps_nfa [''a''] = Inr True"
  by code_simp

lemma example_eps_nfa_alphabet: "set [''a''] \<subseteq> set (alphabet example_eps_nfa)"
  by (simp add: example_eps_nfa_def)

theorem simulate_is_spec_run_witness:
  "set [''a''] \<subseteq> set (alphabet example_eps_nfa) \<and>
   simulate sorted_list_of_set example_eps_nfa [''a''] = Inr True \<and>
   spec_run example_eps_nfa
     (epsilonClosure example_eps_nfa {start_state example_eps_nfa}) [''a'']"
proof -
  have "simulate sorted_list_of_set example_eps_nfa [''a'']
          = Inr (spec_run example_eps_nfa
                  (epsilonClosure example_eps_nfa {start_state example_eps_nfa}) [''a''])"
    using simulate_is_spec_run[OF example_eps_nfa_alphabet, of sorted_list_of_set True]
    by (rule conjunct1)
  then have "spec_run example_eps_nfa
               (epsilonClosure example_eps_nfa {start_state example_eps_nfa}) [''a'']"
    by (simp only: example_eps_nfa_a sum.inject simp_thms)
  then show ?thesis
    using example_eps_nfa_a example_eps_nfa_alphabet by (simp only: simp_thms)
qed

text \<open>
  C8: the \<open>\<epsilon>\<close>-closure of \<open>{s}\<close> contains \<open>s\<close>, and the closure of the closure of
  a (finite) set of states is the closure of that set.
\<close>

theorem get_epsilon_closure_idempotent:
  assumes "finite X"
  shows "{s} \<subseteq> get_epsilon_closure A {s} \<and>
         X \<subseteq> get_epsilon_closure A X \<and>
         get_epsilon_closure A (get_epsilon_closure A X) = get_epsilon_closure A X"
proof -
  have "s \<in> epsilonClosure A {s}" by (rule epsilonClosure.given) simp
  then have "{s} \<subseteq> get_epsilon_closure A {s}" by (simp add: get_epsilon_closure_eq)
  moreover have "X \<subseteq> get_epsilon_closure A X"
    using assms by (auto simp: get_epsilon_closure_eq intro: epsilonClosure.given)
  moreover have "get_epsilon_closure A (get_epsilon_closure A X) = get_epsilon_closure A X"
    using assms by (simp add: get_epsilon_closure_eq finite_epsilonClosure epsilonClosure_idem)
  ultimately show ?thesis by simp
qed

lemma example_eps_closure: "get_epsilon_closure example_eps_nfa {''q0''} = {''q0'', ''q1''}"
  by code_simp

theorem get_epsilon_closure_idempotent_witness:
  "finite {''q0''} \<and>
   get_epsilon_closure example_eps_nfa {''q0''} = {''q0'', ''q1''} \<and>
   get_epsilon_closure example_eps_nfa {''q0'', ''q1''} = {''q0'', ''q1''}"
  using get_epsilon_closure_idempotent[of "{''q0''}" "''q0''" example_eps_nfa]
    example_eps_closure
  by simp

text \<open>
  C10: \<open>get_epsilon_closure\<close> terminates on every table and every finite set of
  states. Started as \<open>get_epsilon_closure\<close> starts it, on any listing \<open>xs\<close> of the
  set \<open>X\<close>, the loop makes exactly as many passes as the closure has states:
  allowed \<open>k\<close> passes, it has returned the closure when the closure has at most
  \<open>k\<close> states and is still running otherwise. The closure is finite and is the
  fixpoint the specification describes.
\<close>

theorem get_epsilon_closure_terminates:
  assumes "set xs = X" and "distinct xs"
  shows "closure_loop_fuel k (transitions A) X xs
           = (if card (get_epsilon_closure A X) \<le> k
              then Some (get_epsilon_closure A X) else None) \<and>
         finite (get_epsilon_closure A X) \<and>
         get_epsilon_closure A X = epsilonClosure A X"
proof -
  have fin: "finite X" using assms(1) by auto
  have eq: "get_epsilon_closure A X = epsilonClosure A X"
    using fin by (rule get_epsilon_closure_eq)
  have loop: "closure_loop (transitions A) X xs = epsilonClosure A X"
    using assms(1) by (rule closure_loop_listing)
  have finc: "finite (epsilonClosure A X)" using fin by (rule finite_epsilonClosure)
  have sub: "X \<subseteq> epsilonClosure A X" by (auto intro: epsilonClosure.given)
  have "card (epsilonClosure A X - X) = card (epsilonClosure A X) - card X"
    using sub fin by (simp add: card_Diff_subset)
  moreover have "card X \<le> card (epsilonClosure A X)" using sub finc by (rule card_mono[rotated])
  moreover have "length xs = card X" using assms by (simp add: distinct_card[symmetric])
  ultimately have "length xs + card (closure_loop (transitions A) X xs - X)
                     = card (epsilonClosure A X)"
    using loop by simp
  then show ?thesis
    using closure_loop_passes[of k "transitions A" X xs] loop eq finc by simp
qed

lemma example_eps_fuel_two:
  "closure_loop_fuel 2 (transitions example_eps_nfa) {''q0''} [''q0''] = Some {''q0'', ''q1''}"
  by code_simp

theorem get_epsilon_closure_terminates_witness:
  "set [''q0''] = {''q0''} \<and> distinct [''q0''] \<and>
   card (get_epsilon_closure example_eps_nfa {''q0''}) = 2 \<and>
   closure_loop_fuel 2 (transitions example_eps_nfa) {''q0''} [''q0'']
     = Some {''q0'', ''q1''} \<and>
   closure_loop_fuel 1 (transitions example_eps_nfa) {''q0''} [''q0''] = None"
proof -
  have c: "card (get_epsilon_closure example_eps_nfa {''q0''}) = 2"
    by (simp add: example_eps_closure)
  have "closure_loop_fuel 1 (transitions example_eps_nfa) {''q0''} [''q0''] = None"
    using get_epsilon_closure_terminates[of "[''q0'']" "{''q0''}" 1 example_eps_nfa] c
    by simp
  with c example_eps_fuel_two show ?thesis by simp
qed

text \<open>
  C6: \<open>simulate\<close> raises \<open>InputError\<close> exactly when the input has a symbol that
  is not in the alphabet. The check comes first: in that case the result is the
  error whatever the run would give; otherwise the result is the verdict of the
  run. The message is the three lines written out below: the offending symbols,
  in the order in which the run iterates their set and separated by a comma and
  a space, then the alphabet, joined the same way. Every offending symbol and
  every symbol of the alphabet stands in the message, whatever the order. The call leaves the automaton as it was,
  so that a later call on it gives what a call on the automaton gives.
\<close>

theorem simulate_input_error:
  assumes "set (listing (set input_string - set (alphabet A)))
             = set input_string - set (alphabet A)"
  shows "simulate listing A input_string =
           (if set input_string \<subseteq> set (alphabet A)
            then Inr (simulate_loop A (get_epsilon_closure A {start_state A}) input_string)
            else Inl (InputError
                   (''Input string contains invalid symbols:'' @ [CHR 0x0A] @
                    ''Invalid symbols: '' @
                    drop 2 (concat (map (\<lambda>symbol. '', '' @ symbol)
                              (listing (set input_string - set (alphabet A))))) @
                    [CHR 0x0A] @
                    ''Allowed symbols (alphabet): '' @
                    drop 2 (concat (map (\<lambda>symbol. '', '' @ symbol) (alphabet A)))))) \<and>
         (\<forall>symbol \<in> set input_string - set (alphabet A).
            \<exists>pre post.
              drop 2 (concat (map (\<lambda>symbol. '', '' @ symbol)
                        (listing (set input_string - set (alphabet A)))))
                = pre @ symbol @ post) \<and>
         (\<forall>symbol \<in> set (alphabet A).
            \<exists>pre post.
              drop 2 (concat (map (\<lambda>symbol. '', '' @ symbol) (alphabet A)))
                = pre @ symbol @ post) \<and>
         snd (simulate_call listing A input_string) = A \<and>
         simulate listing (snd (simulate_call listing A input_string)) other
           = simulate listing A other"
proof -
  let ?invalid = "set input_string - set (alphabet A)"
  have sep: "length '', '' = 2" by simp
  have v: "validate_input_string listing A input_string =
             (if ?invalid \<noteq> {}
              then Inl (InputError (input_error_text (listing ?invalid) (alphabet A)))
              else Inr ())"
    unfolding validate_input_string_def Let_def invalid_symbols_eq ..
  have msg: "input_error_text (listing ?invalid) (alphabet A) =
                ''Input string contains invalid symbols:'' @ [CHR 0x0A] @
                ''Invalid symbols: '' @
                drop 2 (concat (map (\<lambda>symbol. '', '' @ symbol) (listing ?invalid))) @
                [CHR 0x0A] @
                ''Allowed symbols (alphabet): '' @
                drop 2 (concat (map (\<lambda>symbol. '', '' @ symbol) (alphabet A)))"
    unfolding input_error_text_def NL_def
      join_drop[of "'', ''" "listing ?invalid"] join_drop[of "'', ''" "alphabet A"] sep ..
  have first: "simulate listing A input_string =
           (if set input_string \<subseteq> set (alphabet A)
            then Inr (simulate_loop A (get_epsilon_closure A {start_state A}) input_string)
            else Inl (InputError (input_error_text (listing ?invalid) (alphabet A))))"
  proof (cases "set input_string \<subseteq> set (alphabet A)")
    case True
    then have "?invalid = {}" by auto
    with True show ?thesis by (simp add: simulate_def v)
  next
    case False
    then have "?invalid \<noteq> {}" by auto
    with False show ?thesis by (simp add: simulate_def v)
  qed
  have names: "\<exists>pre post.
      drop 2 (concat (map (\<lambda>symbol. '', '' @ symbol) (listing ?invalid))) = pre @ symbol @ post"
    if "symbol \<in> ?invalid" for symbol
  proof -
    from that assms have "symbol \<in> set (listing ?invalid)" by simp
    then obtain pre post where "join '', '' (listing ?invalid) = pre @ symbol @ post"
      using join_names by blast
    then show ?thesis
      unfolding join_drop[of "'', ''" "listing ?invalid"] sep by blast
  qed
  have allowed: "\<exists>pre post.
      drop 2 (concat (map (\<lambda>symbol. '', '' @ symbol) (alphabet A))) = pre @ symbol @ post"
    if "symbol \<in> set (alphabet A)" for symbol
  proof -
    from that obtain pre post where "join '', '' (alphabet A) = pre @ symbol @ post"
      using join_names by blast
    then show ?thesis
      unfolding join_drop[of "'', ''" "alphabet A"] sep by blast
  qed
  have unchanged: "snd (simulate_call listing A input_string) = A"
    by (simp add: simulate_call_def)
  show ?thesis
    unfolding unchanged using first names allowed unfolding msg by blast
qed

lemma example_dfa_invalid_ascending:
  "sorted_list_of_set (set [''0'', ''2'', ''x'', ''2''] - set (alphabet example_dfa))
     = [''2'', ''x'']"
  by code_simp

lemma example_dfa_not_over_alphabet:
  "\<not> set [''0'', ''2'', ''x'', ''2''] \<subseteq> set (alphabet example_dfa)"
  by code_simp

lemma example_dfa_alphabet: "alphabet example_dfa = [''0'', ''1'']"
  by (simp add: example_dfa_def)

theorem simulate_input_error_witness:
  "set (sorted_list_of_set (set [''0'', ''2'', ''x'', ''2''] - set (alphabet example_dfa)))
     = set [''0'', ''2'', ''x'', ''2''] - set (alphabet example_dfa) \<and>
   simulate sorted_list_of_set example_dfa [''0'', ''2'', ''x'', ''2''] =
     Inl (InputError
       (''Input string contains invalid symbols:'' @ [CHR 0x0A] @
        ''Invalid symbols: 2, x'' @ [CHR 0x0A] @
        ''Allowed symbols (alphabet): 0, 1'')) \<and>
   simulate (\<lambda>S. rev (sorted_list_of_set S)) example_dfa [''0'', ''2'', ''x'', ''2''] =
     Inl (InputError
       (''Input string contains invalid symbols:'' @ [CHR 0x0A] @
        ''Invalid symbols: x, 2'' @ [CHR 0x0A] @
        ''Allowed symbols (alphabet): 0, 1''))"
proof -
  have a: "set (sorted_list_of_set (set [''0'', ''2'', ''x'', ''2''] - set (alphabet example_dfa)))
     = set [''0'', ''2'', ''x'', ''2''] - set (alphabet example_dfa)"
    by simp
  have b: "set (rev (sorted_list_of_set
                 (set [''0'', ''2'', ''x'', ''2''] - set (alphabet example_dfa))))
     = set [''0'', ''2'', ''x'', ''2''] - set (alphabet example_dfa)"
    by simp
  have "simulate sorted_list_of_set example_dfa [''0'', ''2'', ''x'', ''2''] =
     Inl (InputError
       (''Input string contains invalid symbols:'' @ [CHR 0x0A] @
        ''Invalid symbols: 2, x'' @ [CHR 0x0A] @
        ''Allowed symbols (alphabet): 0, 1''))"
  proof -
    have "simulate sorted_list_of_set example_dfa [''0'', ''2'', ''x'', ''2''] =
       Inl (InputError
         (''Input string contains invalid symbols:'' @ [CHR 0x0A] @
          ''Invalid symbols: '' @
          drop 2 (concat (map (\<lambda>symbol. '', '' @ symbol) [''2'', ''x''])) @
          [CHR 0x0A] @
          ''Allowed symbols (alphabet): '' @
          drop 2 (concat (map (\<lambda>symbol. '', '' @ symbol) (alphabet example_dfa)))))"
      using simulate_input_error[of sorted_list_of_set "[''0'', ''2'', ''x'', ''2'']"
              example_dfa, OF a, THEN conjunct1] example_dfa_not_over_alphabet
      unfolding example_dfa_invalid_ascending by (simp only: if_False)
    then show ?thesis by (simp add: example_dfa_alphabet)
  qed
  moreover have "simulate (\<lambda>S. rev (sorted_list_of_set S)) example_dfa
                   [''0'', ''2'', ''x'', ''2''] =
     Inl (InputError
       (''Input string contains invalid symbols:'' @ [CHR 0x0A] @
        ''Invalid symbols: x, 2'' @ [CHR 0x0A] @
        ''Allowed symbols (alphabet): 0, 1''))"
  proof -
    have "simulate (\<lambda>S. rev (sorted_list_of_set S)) example_dfa
            [''0'', ''2'', ''x'', ''2''] =
       Inl (InputError
         (''Input string contains invalid symbols:'' @ [CHR 0x0A] @
          ''Invalid symbols: '' @
          drop 2 (concat (map (\<lambda>symbol. '', '' @ symbol) (rev [''2'', ''x'']))) @
          [CHR 0x0A] @
          ''Allowed symbols (alphabet): '' @
          drop 2 (concat (map (\<lambda>symbol. '', '' @ symbol) (alphabet example_dfa)))))"
      using simulate_input_error[of "\<lambda>S. rev (sorted_list_of_set S)"
              "[''0'', ''2'', ''x'', ''2'']" example_dfa, OF b, THEN conjunct1]
            example_dfa_not_over_alphabet
      unfolding example_dfa_invalid_ascending by (simp only: if_False)
    then show ?thesis by (simp add: example_dfa_alphabet)
  qed
  ultimately show ?thesis using a by blast
qed

lemma example_dfa_constructed:
  "FiniteAutomaton [''q0'', ''q1''] [''0'', ''1''] example_dfa_table ''q0'' {''q1''}
     = Inr example_dfa"
  by code_simp

lemma example_dfa_one: "simulate listing example_dfa [''1''] = Inr False"
  by code_simp

lemma example_dfa_zero_zero: "simulate listing example_dfa [''0'', ''0''] = Inr False"
  by code_simp

lemma example_dfa_empty: "simulate listing example_dfa [] = Inr False"
  by code_simp

text \<open>
  C7, as stated: on the DFA scenario \<open>simulate("1")\<close> and \<open>simulate("00")\<close> return
  true and \<open>simulate("")\<close> returns false. The code rejects \<open>"1"\<close> (the run stays
  in \<open>q0\<close>) and rejects \<open>"00"\<close> (the run goes to \<open>q1\<close> and back to \<open>q0\<close>).
\<close>

theorem dfa_scenario_counterexample:
  "FiniteAutomaton [''q0'', ''q1''] [''0'', ''1''] example_dfa_table ''q0'' {''q1''}
     = Inr example_dfa \<and>
   simulate sorted_list_of_set example_dfa [''1''] \<noteq> Inr True \<and>
   simulate sorted_list_of_set example_dfa [''0'', ''0''] \<noteq> Inr True"
  by (simp add: example_dfa_constructed example_dfa_one example_dfa_zero_zero)

text \<open>
  C7, amended: the construction of the DFA scenario succeeds with \<open>is_dfa\<close> set,
  and \<open>simulate("1")\<close>, \<open>simulate("00")\<close> and \<open>simulate("")\<close> all return false.
\<close>

theorem dfa_scenario:
  "FiniteAutomaton [''q0'', ''q1''] [''0'', ''1''] example_dfa_table ''q0'' {''q1''}
     = Inr example_dfa \<and>
   is_dfa example_dfa \<and>
   simulate listing example_dfa [''1''] = Inr False \<and>
   simulate listing example_dfa [''0'', ''0''] = Inr False \<and>
   simulate listing example_dfa [] = Inr False"
proof -
  have "is_dfa example_dfa" by (simp add: example_dfa_def)
  then show ?thesis
    by (simp add: example_dfa_constructed example_dfa_one example_dfa_zero_zero
          example_dfa_empty)
qed

section \<open>The claims about construction\<close>

lemma fork_facts:
  "alphabet fork_automaton \<noteq> []" "complete_single fork_automaton"
  "\<not> has_epsilon fork_automaton" "has_multiple fork_automaton"
  by code_simp+

lemma fork_constructed:
  "FiniteAutomaton [''q0'', ''q1''] [''0'', ''1''] fork_table ''q0'' {''q1''} = Inr fork_automaton"
  by code_simp

lemma fork_kind: "kind fork_automaton = NFA"
  by code_simp

text \<open>
  C2, as stated: every automaton whose non-accepting states have exactly one
  transition per alphabet symbol, and that has no \<open>\<epsilon>\<close>-transition, is a DFA.
  The automaton below meets that, and the code classifies it as an NFA: its
  accept state \<open>q1\<close> has two next states for \<open>0\<close>.
\<close>

theorem kind_classification_counterexample:
  "complete_single fork_automaton \<and> \<not> has_epsilon fork_automaton \<and>
   FiniteAutomaton [''q0'', ''q1''] [''0'', ''1''] fork_table ''q0'' {''q1''}
     = Inr fork_automaton \<and>
   kind fork_automaton = NFA \<and> kind fork_automaton \<noteq> DFA"
  by (simp add: fork_facts fork_constructed fork_kind)

text \<open>
  C2, amended: when the alphabet is not empty, no listed state has an \<open>\<epsilon>\<close> entry
  or an entry with more than one next state, and every listed non-accepting
  state has exactly one next state for every alphabet symbol, the construction
  succeeds and the kind is DFA. When some listed state has an entry with more
  than one next state or an \<open>\<epsilon>\<close> entry, the construction succeeds whatever the
  completeness, and the kind is \<open>\<epsilon>\<close>-NFA if some listed state has an \<open>\<epsilon>\<close> entry
  and NFA otherwise.
\<close>

theorem kind_classification:
  "(alphabet A \<noteq> [] \<and> complete_single A \<and> \<not> has_epsilon A \<and> \<not> has_multiple A \<longrightarrow>
      FiniteAutomaton (states A) (alphabet A) (transitions A) (start_state A) (accept_states A)
        = Inr (A\<lparr>is_dfa := True\<rparr>) \<and>
      kind (A\<lparr>is_dfa := True\<rparr>) = DFA) \<and>
   (has_multiple A \<or> has_epsilon A \<longrightarrow>
      FiniteAutomaton (states A) (alphabet A) (transitions A) (start_state A) (accept_states A)
        = Inr (A\<lparr>is_dfa := False\<rparr>) \<and>
      kind (A\<lparr>is_dfa := False\<rparr>) = (if has_epsilon A then EPSILON_NFA else NFA))"
proof (intro conjI impI)
  assume h: "alphabet A \<noteq> [] \<and> complete_single A \<and> \<not> has_epsilon A \<and> \<not> has_multiple A"
  then have "check_if_dfa A"
    unfolding check_if_dfa_iff scan_iff_flags using complete_single_entries[of A] by blast
  moreover have "violations A = []" using h by (simp add: complete_single_violations)
  ultimately show "FiniteAutomaton (states A) (alphabet A) (transitions A) (start_state A)
      (accept_states A) = Inr (A\<lparr>is_dfa := True\<rparr>)"
    by (simp add: FiniteAutomaton_eq)
  show "kind (A\<lparr>is_dfa := True\<rparr>) = DFA" by (simp add: kind_def)
next
  assume h: "has_multiple A \<or> has_epsilon A"
  then have "\<not> check_if_dfa A" unfolding check_if_dfa_iff scan_iff_flags by blast
  then show "FiniteAutomaton (states A) (alphabet A) (transitions A) (start_state A)
      (accept_states A) = Inr (A\<lparr>is_dfa := False\<rparr>)"
    by (simp add: FiniteAutomaton_eq)
  show "kind (A\<lparr>is_dfa := False\<rparr>) = (if has_epsilon A then EPSILON_NFA else NFA)"
    by (simp add: kind_def has_epsilon_flag)
qed

lemma example_dfa_facts:
  "alphabet example_dfa \<noteq> []" "complete_single example_dfa"
  "\<not> has_epsilon example_dfa" "\<not> has_multiple example_dfa"
  by code_simp+

lemma example_eps_nfa_facts: "has_epsilon example_eps_nfa"
  by code_simp

theorem kind_classification_witness:
  "alphabet example_dfa \<noteq> [] \<and> complete_single example_dfa \<and>
   \<not> has_epsilon example_dfa \<and> \<not> has_multiple example_dfa \<and>
   kind (example_dfa\<lparr>is_dfa := True\<rparr>) = DFA \<and>
   has_multiple fork_automaton \<and> \<not> has_epsilon fork_automaton \<and>
   kind (fork_automaton\<lparr>is_dfa := False\<rparr>) = NFA \<and>
   has_epsilon example_eps_nfa \<and>
   FiniteAutomaton (states example_eps_nfa) (alphabet example_eps_nfa)
       (transitions example_eps_nfa) (start_state example_eps_nfa)
       (accept_states example_eps_nfa) = Inr (example_eps_nfa\<lparr>is_dfa := False\<rparr>) \<and>
   kind (example_eps_nfa\<lparr>is_dfa := False\<rparr>) = EPSILON_NFA"
  using kind_classification[of example_dfa] kind_classification[of fork_automaton]
    kind_classification[of example_eps_nfa]
    example_dfa_facts fork_facts example_eps_nfa_facts
  by simp

lemma incomplete_constructed:
  "FiniteAutomaton [''q0'', ''q1''] [''0'', ''1''] incomplete_table ''q0'' {''q1''}
     = Inr incomplete_automaton"
  by code_simp

text \<open>
  C3, as stated: the construction of the incomplete scenario raises a
  \<open>TransitionError\<close> naming \<open>(q0, 1)\<close>. The code raises nothing: the constructor
  returns an automaton.
\<close>

theorem incomplete_scenario_counterexample:
  "FiniteAutomaton [''q0'', ''q1''] [''0'', ''1''] incomplete_table ''q0'' {''q1''}
     = Inr incomplete_automaton \<and>
   \<not> isl (FiniteAutomaton [''q0'', ''q1''] [''0'', ''1''] incomplete_table ''q0'' {''q1''})"
  by (simp add: incomplete_constructed)

text \<open>
  C3, amended: on the incomplete scenario \<open>check_if_dfa\<close> answers false, because
  \<open>q0\<close> has no entry for \<open>1\<close>; so the constructor does not run
  \<open>validate_transitions\<close>, raises nothing and returns the automaton with
  \<open>is_dfa\<close> false, which the caller shows as an NFA. \<open>validate_transitions\<close>
  raises only when it is run with the flag set: on this automaton its message
  names the pair \<open>(q0, 1)\<close> and no pair of \<open>q1\<close>, which is an accept state.
\<close>

theorem incomplete_scenario:
  "\<not> check_if_dfa incomplete_automaton \<and>
   FiniteAutomaton [''q0'', ''q1''] [''0'', ''1''] incomplete_table ''q0'' {''q1''}
     = Inr incomplete_automaton \<and>
   \<not> is_dfa incomplete_automaton \<and>
   kind incomplete_automaton = NFA \<and>
   validate_transitions incomplete_automaton = Inr () \<and>
   validate_transitions (incomplete_automaton\<lparr>is_dfa := True\<rparr>)
     = Inl (TransitionError (''DFA Validation Errors:'' @ [CHR 0x0A] @ ''(q0, 1)''))"
proof -
  have "\<not> check_if_dfa incomplete_automaton"
    by code_simp
  moreover have "\<not> is_dfa incomplete_automaton"
    by (simp add: incomplete_automaton_def)
  moreover have "kind incomplete_automaton = NFA"
    by code_simp
  moreover have "validate_transitions incomplete_automaton = Inr ()"
    by code_simp
  moreover have "validate_transitions (incomplete_automaton\<lparr>is_dfa := True\<rparr>)
     = Inl (TransitionError (''DFA Validation Errors:'' @ [CHR 0x0A] @ ''(q0, 1)''))"
    by code_simp
  ultimately show ?thesis using incomplete_constructed by blast
qed

text \<open>
  C4: when every list of next states in the table is non-empty, the constructor
  never raises \<open>TransitionError\<close>: it returns the automaton with \<open>is_dfa\<close> set
  from \<open>check_if_dfa\<close>, and whenever \<open>check_if_dfa\<close> answers true no pair of a
  non-accepting state and an alphabet symbol is a violation.
\<close>

theorem construction_never_raises:
  assumes "\<forall>state d symbol ds.
             fmlookup tbl state = Some d \<and> fmlookup d symbol = Some ds \<longrightarrow> ds \<noteq> []"
  shows "FiniteAutomaton sts alph tbl start accept =
           Inr \<lparr>states = sts, alphabet = alph, transitions = tbl, start_state = start,
                accept_states = accept,
                is_dfa = check_if_dfa
                  \<lparr>states = sts, alphabet = alph, transitions = tbl, start_state = start,
                   accept_states = accept, is_dfa = False\<rparr>\<rparr> \<and>
         (check_if_dfa
            \<lparr>states = sts, alphabet = alph, transitions = tbl, start_state = start,
             accept_states = accept, is_dfa = False\<rparr> \<longrightarrow>
          violations
            \<lparr>states = sts, alphabet = alph, transitions = tbl, start_state = start,
             accept_states = accept, is_dfa = False\<rparr> = [])"
proof -
  let ?A = "\<lparr>states = sts, alphabet = alph, transitions = tbl, start_state = start,
             accept_states = accept, is_dfa = False\<rparr>"
  have v: "check_if_dfa ?A \<Longrightarrow> violations ?A = []"
    using assms by (intro dfa_no_violation) simp_all
  show ?thesis
  proof (cases "check_if_dfa ?A")
    case True
    with v FiniteAutomaton_eq[of ?A] show ?thesis by simp
  next
    case False
    with FiniteAutomaton_eq[of ?A] show ?thesis by simp
  qed
qed

lemma example_dfa_table_nonempty:
  "\<forall>state d symbol ds.
     fmlookup example_dfa_table state = Some d \<and> fmlookup d symbol = Some ds \<longrightarrow> ds \<noteq> []"
  by (auto simp: example_dfa_table_def split: if_splits)

theorem construction_never_raises_witness:
  "FiniteAutomaton [''q0'', ''q1''] [''0'', ''1''] example_dfa_table ''q0'' {''q1''} =
     Inr \<lparr>states = [''q0'', ''q1''], alphabet = [''0'', ''1''],
          transitions = example_dfa_table, start_state = ''q0'',
          accept_states = {''q1''}, is_dfa = True\<rparr> \<and>
   violations \<lparr>states = [''q0'', ''q1''], alphabet = [''0'', ''1''],
          transitions = example_dfa_table, start_state = ''q0'',
          accept_states = {''q1''}, is_dfa = False\<rparr> = []"
proof -
  have "check_if_dfa \<lparr>states = [''q0'', ''q1''], alphabet = [''0'', ''1''],
          transitions = example_dfa_table, start_state = ''q0'',
          accept_states = {''q1''}, is_dfa = False\<rparr>"
    by code_simp
  then show ?thesis
    using construction_never_raises[OF example_dfa_table_nonempty,
            of "[''q0'', ''q1'']" "[''0'', ''1'']" "''q0''" "{''q1''}"]
    by simp
qed

lemma loop_constructed:
  "FiniteAutomaton [''q0''] [''0''] loop_table ''qX'' {''qY''} =
     Inr \<lparr>states = [''q0''], alphabet = [''0''], transitions = loop_table,
          start_state = ''qX'', accept_states = {''qY''}, is_dfa = True\<rparr>"
  by code_simp

text \<open>
  C5, as stated: construction fails when \<open>start_state\<close> is not in \<open>states\<close> or
  \<open>accept_states\<close> is not a subset of \<open>states\<close>. The constructor makes no such
  check (the caller's \<open>validate_basic_inputs\<close> does, before it constructs): here
  neither the start state nor the accept state is listed, and an automaton is
  returned.
\<close>

theorem construction_unchecked_counterexample:
  "''qX'' \<notin> set [''q0''] \<and> \<not> {''qY''} \<subseteq> set [''q0''] \<and>
   FiniteAutomaton [''q0''] [''0''] loop_table ''qX'' {''qY''} =
     Inr \<lparr>states = [''q0''], alphabet = [''0''], transitions = loop_table,
          start_state = ''qX'', accept_states = {''qY''}, is_dfa = True\<rparr>"
  using loop_constructed by simp

text \<open>
  C5, amended: the constructor does not check \<open>start_state\<close> or
  \<open>accept_states\<close> against \<open>states\<close>. A successful construction holds the
  states, the start state and the accept states as given, and another start
  state changes nothing but the stored start state: the construction fails for
  the one exactly when it fails for the other, with the same error.
\<close>

theorem construction_stores_unchecked:
  "(\<forall>A. FiniteAutomaton sts alph tbl start accept = Inr A \<longrightarrow>
        states A = sts \<and> start_state A = start \<and> accept_states A = accept) \<and>
   FiniteAutomaton sts alph tbl start' accept =
     map_sum id (\<lambda>A. A\<lparr>start_state := start'\<rparr>) (FiniteAutomaton sts alph tbl start accept)"
proof -
  let ?A = "\<lparr>states = sts, alphabet = alph, transitions = tbl, start_state = start,
             accept_states = accept, is_dfa = False\<rparr>"
  have a: "FiniteAutomaton sts alph tbl start accept =
     (if check_if_dfa ?A
      then (if violations ?A = [] then Inr (?A\<lparr>is_dfa := True\<rparr>)
            else Inl (TransitionError
                   (''DFA Validation Errors:'' @ NL @
                    join NL (map (violation_text ?A) (violations ?A)))))
      else Inr (?A\<lparr>is_dfa := False\<rparr>))"
    using FiniteAutomaton_eq[of ?A] by simp
  have b: "FiniteAutomaton sts alph tbl start' accept =
     (if check_if_dfa ?A
      then (if violations ?A = [] then Inr (?A\<lparr>start_state := start', is_dfa := True\<rparr>)
            else Inl (TransitionError
                   (''DFA Validation Errors:'' @ NL @
                    join NL (map (violation_text ?A) (violations ?A)))))
      else Inr (?A\<lparr>start_state := start', is_dfa := False\<rparr>))"
    using FiniteAutomaton_eq[of "?A\<lparr>start_state := start'\<rparr>"]
      check_if_dfa_start[of start' ?A] violations_start[of start' ?A]
      violation_text_start[of start' ?A]
    by simp
  show ?thesis unfolding a b by simp
qed

theorem construction_stores_unchecked_witness:
  "FiniteAutomaton [''q0''] [''0''] loop_table ''q0'' {''qY''} =
     Inr \<lparr>states = [''q0''], alphabet = [''0''], transitions = loop_table,
          start_state = ''q0'', accept_states = {''qY''}, is_dfa = True\<rparr>"
  using construction_stores_unchecked[of "[''q0'']" "[''0'']" loop_table "''qX''" "{''qY''}" "''q0''"]
    loop_constructed
  by simp

text \<open>
  C9: run on an automaton whose \<open>is_dfa\<close> flag is set, \<open>validate_transitions\<close>
  raises nothing when there is no violation, and otherwise raises one
  \<open>TransitionError\<close> whose message is the heading followed by one line for
  every violation, in order: the pair in parentheses, and for a pair that has an
  entry the remark that multiple transitions are not allowed. The violations
  are exactly the pairs of a listed non-accepting state and an alphabet symbol
  with no entry or with an entry whose number of next states is not one; no pair
  of an accept state is among them.
\<close>

theorem validate_transitions_reports_all:
  assumes "is_dfa A"
  shows "validate_transitions A =
           (if violations A = [] then Inr ()
            else Inl (TransitionError
                   (''DFA Validation Errors:'' @
                    concat (map (\<lambda>p. [CHR 0x0A] @ violation_text A p) (violations A))))) \<and>
         set (violations A) =
           {(state, symbol). state \<in> set (states A) \<and> state \<notin> accept_states A \<and>
              symbol \<in> set (alphabet A) \<and> violates A state symbol}"
proof -
  have lines: "NL @ join NL (map (violation_text A) (violations A)) =
                 concat (map (\<lambda>p. [CHR 0x0A] @ violation_text A p) (violations A))"
    if "violations A \<noteq> []"
  proof -
    from that have "map (violation_text A) (violations A) \<noteq> []" by simp
    then have "NL @ join NL (map (violation_text A) (violations A)) =
                 concat (map (\<lambda>x. NL @ x) (map (violation_text A) (violations A)))"
      by (rule join_prefixed)
    then show ?thesis by (simp add: NL_def comp_def)
  qed
  have "validate_transitions A =
           (if violations A = [] then Inr ()
            else Inl (TransitionError
                   (''DFA Validation Errors:'' @
                    concat (map (\<lambda>p. [CHR 0x0A] @ violation_text A p) (violations A)))))"
    using assms validate_transitions_violations[of A] lines by simp
  then show ?thesis using set_violations[of A] by blast
qed

lemma violating_automaton_violations:
  "violations violating_automaton =
     [(''q0'', ''0''), (''q0'', ''1''), (''q1'', ''0''), (''q1'', ''1'')]"
  by code_simp

lemma violating_automaton_texts:
  "map (violation_text violating_automaton)
     [(''q0'', ''0''), (''q0'', ''1''), (''q1'', ''0''), (''q1'', ''1'')] =
     [''(q0, 0) - multiple transitions not allowed in DFA'', ''(q0, 1)'', ''(q1, 0)'', ''(q1, 1)'']"
  by code_simp

theorem validate_transitions_reports_all_witness:
  "is_dfa violating_automaton \<and>
   violations violating_automaton =
     [(''q0'', ''0''), (''q0'', ''1''), (''q1'', ''0''), (''q1'', ''1'')] \<and>
   validate_transitions violating_automaton =
     Inl (TransitionError
       (''DFA Validation Errors:'' @ [CHR 0x0A] @
        ''(q0, 0) - multiple transitions not allowed in DFA'' @ [CHR 0x0A] @
        ''(q0, 1)'' @ [CHR 0x0A] @
        ''(q1, 0)'' @ [CHR 0x0A] @
        ''(q1, 1)''))"
proof -
  have d: "is_dfa violating_automaton" by (simp add: violating_automaton_def)
  have t: "map (\<lambda>p. [CHR 0x0A] @ violation_text violating_automaton p)
             [(''q0'', ''0''), (''q0'', ''1''), (''q1'', ''0''), (''q1'', ''1'')] =
           map (\<lambda>l. [CHR 0x0A] @ l)
             [''(q0, 0) - multiple transitions not allowed in DFA'',
              ''(q0, 1)'', ''(q1, 0)'', ''(q1, 1)'']"
    using violating_automaton_texts by simp
  have "validate_transitions violating_automaton =
     Inl (TransitionError
       (''DFA Validation Errors:'' @ [CHR 0x0A] @
        ''(q0, 0) - multiple transitions not allowed in DFA'' @ [CHR 0x0A] @
        ''(q0, 1)'' @ [CHR 0x0A] @
        ''(q1, 0)'' @ [CHR 0x0A] @
        ''(q1, 1)''))"
    using validate_transitions_reports_all[OF d, THEN conjunct1]
    unfolding violating_automaton_violations t by simp
  then show ?thesis using d violating_automaton_violations by blast
qed

end
